theory Spec2Isabelle
  imports Complex_Main
begin

section \<open>The threat-aware route planner of \<open>create_convoy\<close> (src/backend/main.py)\<close>

text \<open>
  The planner is the part of \<open>create_convoy\<close> between the construction of
  \<open>all_threats\<close> and the assignment of \<open>route_points\<close>. Python's \<open>float\<close> values are
  modelled as real numbers. In the distance tests a square only enters a comparison with
  a radius and is taken exactly. In the perpendicular, where the guard
  \<open>perp_magnitude > 0\<close> decides whether the vector is normalised at all, the underflow
  of the squares and the overflow of their sum are modelled. The one float operation of
  the planner that raises on overflow is modelled with the exceptions further down. Any
  other rounding is not modelled. A point is the tuple \<open>(lat, lng)\<close>
  the source builds, a threat is the dictionary with the keys \<open>lat\<close>, \<open>lng\<close> and
  \<open>radius\<close>; two such dictionaries are equal exactly when their three values are.
\<close>

subsection \<open>Data\<close>

type_synonym point = "real \<times> real"

record threat =
  lat :: real
  lng :: real
  radius :: real

subsection \<open>Sampling the direct route\<close>

text \<open>\<open>fraction = i / 101.0\<close> and the point \<open>(check_lat, check_lng)\<close> of iteration \<open>i\<close>.\<close>

definition fraction :: "nat \<Rightarrow> real" where
  "fraction i = real i / 101"

definition check_point :: "point \<Rightarrow> point \<Rightarrow> nat \<Rightarrow> point" where
  "check_point start_point end_point i =
     (fst start_point + fraction i * (fst end_point - fst start_point),
      snd start_point + fraction i * (snd end_point - snd start_point))"

definition radius_in_degrees :: "threat \<Rightarrow> real" where
  "radius_in_degrees t = radius t / 111320"

definition distance :: "point \<Rightarrow> threat \<Rightarrow> real" where
  "distance p t = sqrt ((fst p - lat t)\<^sup>2 + (snd p - lng t)\<^sup>2)"

text \<open>
  The inner loop \<open>for j, threat in enumerate(all_threats)\<close> at one sample point: the
  first threat within the widened radius is appended unless it is already in the list,
  and the \<open>break\<close> leaves the loop whether or not it was appended.
\<close>

fun scan_threats :: "point \<Rightarrow> threat list \<Rightarrow> threat list \<Rightarrow> threat list" where
  "scan_threats p [] threats_on_route = threats_on_route"
| "scan_threats p (t # ts) threats_on_route =
     (if distance p t \<le> radius_in_degrees t * 1.1
      then (if t \<notin> set threats_on_route then threats_on_route @ [t] else threats_on_route)
      else scan_threats p ts threats_on_route)"

text \<open>The outer loop \<open>for i in range(1, 101)\<close>, starting from the empty list.\<close>

definition threats_on_route :: "point \<Rightarrow> point \<Rightarrow> threat list \<Rightarrow> threat list" where
  "threats_on_route start_point end_point all_threats =
     foldl (\<lambda>acc i. scan_threats (check_point start_point end_point i) all_threats acc)
       [] [1..<101]"

subsection \<open>The detour waypoint\<close>

definition mid_point :: "point \<Rightarrow> point \<Rightarrow> point" where
  "mid_point start_point end_point =
     ((fst start_point + fst end_point) / 2, (snd start_point + snd end_point) / 2)"

text \<open>
  Python's \<open>min(xs, key=f)\<close> keeps the first element whose key is minimal: a later
  element replaces the current one only when its key is strictly smaller.
\<close>

fun min_by :: "('a \<Rightarrow> real) \<Rightarrow> 'a \<Rightarrow> 'a list \<Rightarrow> 'a" where
  "min_by key best [] = best"
| "min_by key best (x # xs) = min_by key (if key x < key best then x else best) xs"

definition closest_threat :: "point \<Rightarrow> point \<Rightarrow> threat \<Rightarrow> threat list \<Rightarrow> threat" where
  "closest_threat start_point end_point c cs =
     min_by (distance (mid_point start_point end_point)) c cs"

text \<open>
  The guard \<open>perp_magnitude > 0\<close> reads a value computed from two squares, so the places
  where these doubles leave the real numbers are modelled. A square below the least
  normal double \<open>2 ^ -1022\<close> is rounded to a multiple of \<open>2 ^ -1074\<close>, hence to \<open>0.0\<close>
  below \<open>2 ^ -1075\<close> (the square of a double is never half-way between two multiples).
  A sum of two squares from \<open>2 ^ 1024 - 2 ^ 970\<close> on, where rounding to nearest no longer
  gives a finite double, is \<open>inf\<close>. Any other rounding is not modelled.
\<close>

definition least_normal :: real where
  "least_normal = 1 / 2 ^ 1022"

definition subnormal_step :: real where
  "subnormal_step = 1 / 2 ^ 1074"

definition overflow_threshold :: real where
  "overflow_threshold = 2 ^ 1024 - 2 ^ 970"

text \<open>The value of \<open>x ** 2\<close>, where it does not raise.\<close>

definition float_pow2 :: "real \<Rightarrow> real" where
  "float_pow2 x =
     (if x\<^sup>2 < least_normal
      then real_of_int (round (x\<^sup>2 / subnormal_step)) * subnormal_step
      else x\<^sup>2)"

text \<open>
  The perpendicular of the route vector, divided by its length only when the computed
  length is positive. When the sum of the squares is \<open>inf\<close>, so is \<open>perp_magnitude\<close>: the
  guard holds and each division by \<open>inf\<close> gives \<open>0.0\<close>.
\<close>

definition perp_vector :: "point \<Rightarrow> point \<Rightarrow> point" where
  "perp_vector start_point end_point =
     (let route_vector_lat = fst end_point - fst start_point;
          route_vector_lng = snd end_point - snd start_point;
          perp_vector_lat = - route_vector_lng;
          perp_vector_lng = route_vector_lat;
          squares = float_pow2 perp_vector_lat + float_pow2 perp_vector_lng
      in if overflow_threshold \<le> squares
         then (0, 0)
         else (let perp_magnitude = sqrt squares
               in if perp_magnitude > 0
                  then (perp_vector_lat / perp_magnitude, perp_vector_lng / perp_magnitude)
                  else (perp_vector_lat, perp_vector_lng)))"

definition detour_distance :: "threat \<Rightarrow> real" where
  "detour_distance t = (radius t / 111320) * 2"

definition waypoint_primary :: "point \<Rightarrow> point \<Rightarrow> threat \<Rightarrow> point" where
  "waypoint_primary start_point end_point t =
     (lat t + fst (perp_vector start_point end_point) * detour_distance t,
      lng t + snd (perp_vector start_point end_point) * detour_distance t)"

definition waypoint_opposite :: "point \<Rightarrow> point \<Rightarrow> threat \<Rightarrow> point" where
  "waypoint_opposite start_point end_point t =
     (lat t - fst (perp_vector start_point end_point) * detour_distance t,
      lng t - snd (perp_vector start_point end_point) * detour_distance t)"

text \<open>The loop that computes the flag \<open>waypoint_safe\<close> over \<open>all_threats\<close>.\<close>

fun waypoint_safe :: "point \<Rightarrow> threat list \<Rightarrow> bool" where
  "waypoint_safe w [] = True"
| "waypoint_safe w (t # ts) =
     (if distance w t \<le> radius_in_degrees t then False else waypoint_safe w ts)"

definition detour_waypoint :: "point \<Rightarrow> point \<Rightarrow> threat \<Rightarrow> threat list \<Rightarrow> point" where
  "detour_waypoint start_point end_point t all_threats =
     (if \<not> waypoint_safe (waypoint_primary start_point end_point t) all_threats
      then waypoint_opposite start_point end_point t
      else waypoint_primary start_point end_point t)"

subsection \<open>The route\<close>

definition plan :: "point \<Rightarrow> point \<Rightarrow> threat list \<Rightarrow> point list" where
  "plan start_point end_point all_threats =
     (case threats_on_route start_point end_point all_threats of
        [] \<Rightarrow> [start_point, end_point]
      | c # cs \<Rightarrow>
          [start_point,
           detour_waypoint start_point end_point
             (closest_threat start_point end_point c cs) all_threats,
           end_point])"

subsection \<open>The sampler, described per sample point\<close>

text \<open>
  A description of the conflict list that does not follow the loops: the first threat, in
  the order of \<open>all_threats\<close>, that a point meets within the widened radius, and the
  list of these first threats over the sample points \<open>1, \<dots>, 100\<close>.
\<close>

definition first_hit :: "point \<Rightarrow> threat list \<Rightarrow> threat option" where
  "first_hit p all_threats =
     find (\<lambda>t. distance p t \<le> radius_in_degrees t * 1.1) all_threats"

definition first_hits :: "point \<Rightarrow> point \<Rightarrow> threat list \<Rightarrow> threat list" where
  "first_hits start_point end_point all_threats =
     List.map_filter (\<lambda>i. first_hit (check_point start_point end_point i) all_threats)
       [1..<101]"

subsection \<open>The exceptions of the planner\<close>

text \<open>
  The operations of the planner that can raise in Python: the division \<open>/\<close> raises
  \<open>ZeroDivisionError\<close> on a zero divisor, \<open>math.sqrt\<close> raises \<open>ValueError\<close> on a
  negative argument, and \<open>x ** 2\<close> on a float raises \<open>OverflowError\<close> when the square is
  beyond the range of a double, that is from \<open>overflow_threshold\<close> on. The other float
  operations of the planner (\<open>+\<close>, \<open>-\<close>, \<open>*\<close>, comparisons) do not raise. The functions
  below follow the planner statement by statement, in the order of evaluation, and stop
  at the first exception. Their values are those of the functions above: real numbers
  in the distance tests, and in the perpendicular the squares and their sum as computed.
\<close>

datatype py_error = ZeroDivisionError | ValueError | OverflowError

definition py_div :: "real \<Rightarrow> real \<Rightarrow> py_error + real" where
  "py_div x y = (if y = 0 then Inl ZeroDivisionError else Inr (x / y))"

definition py_pow2 :: "real \<Rightarrow> py_error + real" where
  "py_pow2 x = (if overflow_threshold \<le> x\<^sup>2 then Inl OverflowError else Inr (x\<^sup>2))"

definition py_pow2_float :: "real \<Rightarrow> py_error + real" where
  "py_pow2_float x =
     (if overflow_threshold \<le> x\<^sup>2 then Inl OverflowError else Inr (float_pow2 x))"

definition math_sqrt :: "real \<Rightarrow> py_error + real" where
  "math_sqrt x = (if x < 0 then Inl ValueError else Inr (sqrt x))"

definition distance_chk :: "point \<Rightarrow> threat \<Rightarrow> py_error + real" where
  "distance_chk p t =
     (case py_pow2 (fst p - lat t) of Inl err \<Rightarrow> Inl err
      | Inr a \<Rightarrow>
     (case py_pow2 (snd p - lng t) of Inl err \<Rightarrow> Inl err
      | Inr b \<Rightarrow> math_sqrt (a + b)))"

fun scan_threats_chk :: "point \<Rightarrow> threat list \<Rightarrow> threat list \<Rightarrow> py_error + threat list" where
  "scan_threats_chk p [] found = Inr found"
| "scan_threats_chk p (t # ts) found =
     (case py_div (radius t) 111320 of Inl err \<Rightarrow> Inl err
      | Inr degrees \<Rightarrow>
     (case distance_chk p t of Inl err \<Rightarrow> Inl err
      | Inr dist_deg \<Rightarrow>
        if dist_deg \<le> degrees * 1.1
        then Inr (if t \<notin> set found then found @ [t]
                  else found)
        else scan_threats_chk p ts found))"

fun sample_loop_chk ::
  "point \<Rightarrow> point \<Rightarrow> threat list \<Rightarrow> nat list \<Rightarrow> threat list \<Rightarrow> py_error + threat list" where
  "sample_loop_chk start_point end_point all_threats [] found = Inr found"
| "sample_loop_chk start_point end_point all_threats (i # is) found =
     (case py_div (real i) 101 of Inl err \<Rightarrow> Inl err
      | Inr fr \<Rightarrow>
     (case scan_threats_chk
             (fst start_point + fr * (fst end_point - fst start_point),
              snd start_point + fr * (snd end_point - snd start_point))
             all_threats found of
        Inl err \<Rightarrow> Inl err
      | Inr found' \<Rightarrow>
          sample_loop_chk start_point end_point all_threats is found'))"

definition threats_on_route_chk :: "point \<Rightarrow> point \<Rightarrow> threat list \<Rightarrow> py_error + threat list" where
  "threats_on_route_chk start_point end_point all_threats =
     sample_loop_chk start_point end_point all_threats [1..<101] []"

fun min_by_chk :: "('a \<Rightarrow> py_error + real) \<Rightarrow> 'a \<Rightarrow> real \<Rightarrow> 'a list \<Rightarrow> py_error + 'a" where
  "min_by_chk key best best_key [] = Inr best"
| "min_by_chk key best best_key (x # xs) =
     (case key x of Inl err \<Rightarrow> Inl err
      | Inr k \<Rightarrow>
          if k < best_key then min_by_chk key x k xs else min_by_chk key best best_key xs)"

definition closest_threat_chk ::
  "point \<Rightarrow> point \<Rightarrow> threat \<Rightarrow> threat list \<Rightarrow> py_error + threat" where
  "closest_threat_chk start_point end_point c cs =
     (case py_div (fst start_point + fst end_point) 2 of Inl err \<Rightarrow> Inl err
      | Inr mid_lat \<Rightarrow>
     (case py_div (snd start_point + snd end_point) 2 of Inl err \<Rightarrow> Inl err
      | Inr mid_lng \<Rightarrow>
     (case distance_chk (mid_lat, mid_lng) c of Inl err \<Rightarrow> Inl err
      | Inr k \<Rightarrow> min_by_chk (distance_chk (mid_lat, mid_lng)) c k cs)))"

definition perp_vector_chk :: "point \<Rightarrow> point \<Rightarrow> py_error + point" where
  "perp_vector_chk start_point end_point =
     (let route_vector_lat = fst end_point - fst start_point;
          route_vector_lng = snd end_point - snd start_point;
          perp_vector_lat = - route_vector_lng;
          perp_vector_lng = route_vector_lat
      in case py_pow2_float perp_vector_lat of Inl err \<Rightarrow> Inl err
         | Inr a \<Rightarrow>
        (case py_pow2_float perp_vector_lng of Inl err \<Rightarrow> Inl err
         | Inr b \<Rightarrow>
             if overflow_threshold \<le> a + b
             then Inr (0, 0)
             else
        (case math_sqrt (a + b) of Inl err \<Rightarrow> Inl err
         | Inr perp_magnitude \<Rightarrow>
             if perp_magnitude > 0
             then (case py_div perp_vector_lat perp_magnitude of Inl err \<Rightarrow> Inl err
                   | Inr lat' \<Rightarrow>
                  (case py_div perp_vector_lng perp_magnitude of Inl err \<Rightarrow> Inl err
                   | Inr lng' \<Rightarrow> Inr (lat', lng')))
             else Inr (perp_vector_lat, perp_vector_lng))))"

fun waypoint_safe_chk :: "point \<Rightarrow> threat list \<Rightarrow> py_error + bool" where
  "waypoint_safe_chk w [] = Inr True"
| "waypoint_safe_chk w (t # ts) =
     (case py_div (radius t) 111320 of Inl err \<Rightarrow> Inl err
      | Inr degrees \<Rightarrow>
     (case distance_chk w t of Inl err \<Rightarrow> Inl err
      | Inr dist_deg \<Rightarrow>
          if dist_deg \<le> degrees then Inr False else waypoint_safe_chk w ts))"

definition plan_chk :: "point \<Rightarrow> point \<Rightarrow> threat list \<Rightarrow> py_error + point list" where
  "plan_chk start_point end_point all_threats =
     (case threats_on_route_chk start_point end_point all_threats of Inl err \<Rightarrow> Inl err
      | Inr [] \<Rightarrow> Inr [start_point, end_point]
      | Inr (c # cs) \<Rightarrow>
     (case closest_threat_chk start_point end_point c cs of Inl err \<Rightarrow> Inl err
      | Inr closest \<Rightarrow>
     (case perp_vector_chk start_point end_point of Inl err \<Rightarrow> Inl err
      | Inr perp \<Rightarrow>
     (case py_div (radius closest) 111320 of Inl err \<Rightarrow> Inl err
      | Inr r \<Rightarrow>
     (let detour = r * 2;
          waypoint_1 = (lat closest + fst perp * detour,
                        lng closest + snd perp * detour)
      in case waypoint_safe_chk waypoint_1 all_threats of Inl err \<Rightarrow> Inl err
         | Inr safe \<Rightarrow>
             Inr [start_point,
                  if \<not> safe
                  then (lat closest - fst perp * detour,
                        lng closest - snd perp * detour)
                  else waypoint_1,
                  end_point])))))"

text \<open>
  The inputs on which no square can overflow: coordinates of at most \<open>10 ^ 150\<close> in
  absolute value, and radii between 0 and \<open>10 ^ 150\<close>.
\<close>

definition coord_bound :: real where
  "coord_bound = 10 ^ 150"

definition coord_ok :: "real \<Rightarrow> bool" where
  "coord_ok x \<longleftrightarrow> \<bar>x\<bar> \<le> coord_bound"

definition point_ok :: "point \<Rightarrow> bool" where
  "point_ok p \<longleftrightarrow> coord_ok (fst p) \<and> coord_ok (snd p)"

definition threat_ok :: "threat \<Rightarrow> bool" where
  "threat_ok t \<longleftrightarrow>
     coord_ok (lat t) \<and> coord_ok (lng t) \<and> 0 \<le> radius t \<and> radius t \<le> coord_bound"

subsection \<open>Ranges for the perpendicular and the offset\<close>

text \<open>
  A component of the route vector whose square is computed without underflow or
  overflow: it is 0, or its absolute value lies between \<open>2 ^ -511\<close> and \<open>2 ^ 511\<close>.
\<close>

definition range_bound :: real where
  "range_bound = 2 ^ 511"

definition normal_range :: "real \<Rightarrow> bool" where
  "normal_range x \<longleftrightarrow> x = 0 \<or> (1 / range_bound \<le> \<bar>x\<bar> \<and> \<bar>x\<bar> \<le> range_bound)"

text \<open>
  A threat whose offset is not lost in the double sum \<open>centre + offset\<close>: the radius lies
  between \<open>2 ^ -500\<close> and \<open>2 ^ 500\<close> metres, and the coordinates of the centre are at
  most \<open>2 ^ 30\<close> times the radius in degrees.
\<close>

definition offset_visible :: "threat \<Rightarrow> bool" where
  "offset_visible t \<longleftrightarrow>
     1 / 2 ^ 500 \<le> radius t \<and> radius t \<le> 2 ^ 500
     \<and> \<bar>lat t\<bar> \<le> 2 ^ 30 * (radius t / 111320)
     \<and> \<bar>lng t\<bar> \<le> 2 ^ 30 * (radius t / 111320)"

section \<open>Properties\<close>

subsection \<open>Evaluating the distance tests\<close>

text \<open>
  A comparison of a square root with a bound is a comparison of squares, which the
  simplifier decides on rational inputs.
\<close>

lemma sqrt_sum_le_iff:
  fixes a b k :: real
  shows "sqrt (a\<^sup>2 + b\<^sup>2) \<le> k \<longleftrightarrow> 0 \<le> k \<and> a\<^sup>2 + b\<^sup>2 \<le> k\<^sup>2"
proof (cases "0 \<le> k")
  case True
  then have "sqrt (a\<^sup>2 + b\<^sup>2) \<le> k \<longleftrightarrow> sqrt (a\<^sup>2 + b\<^sup>2) \<le> sqrt (k\<^sup>2)"
    by simp
  also have "\<dots> \<longleftrightarrow> a\<^sup>2 + b\<^sup>2 \<le> k\<^sup>2"
    by (rule real_sqrt_le_iff)
  finally show ?thesis using True by simp
next
  case False
  have "0 \<le> sqrt (a\<^sup>2 + b\<^sup>2)" by simp
  with False show ?thesis by linarith
qed

lemma hit_iff:
  "distance p t \<le> radius_in_degrees t * 1.1 \<longleftrightarrow>
     0 \<le> radius t \<and> (fst p - lat t)\<^sup>2 + (snd p - lng t)\<^sup>2 \<le> (radius t * 11 / 1113200)\<^sup>2"
proof -
  have k: "radius_in_degrees t * 1.1 = radius t * 11 / 1113200"
    by (simp add: radius_in_degrees_def)
  show ?thesis unfolding k distance_def sqrt_sum_le_iff by simp
qed

lemma inside_iff:
  "distance p t \<le> radius_in_degrees t \<longleftrightarrow>
     0 \<le> radius t \<and> (fst p - lat t)\<^sup>2 + (snd p - lng t)\<^sup>2 \<le> (radius t / 111320)\<^sup>2"
  unfolding radius_in_degrees_def distance_def sqrt_sum_le_iff by simp

lemma scan_threats_Cons_eval:
  "scan_threats p (t # ts) acc =
     (if 0 \<le> radius t \<and>
         (fst p - lat t) * (fst p - lat t) + (snd p - lng t) * (snd p - lng t)
           \<le> (radius t * 11 / 1113200) * (radius t * 11 / 1113200)
      then (if t \<notin> set acc then acc @ [t] else acc)
      else scan_threats p ts acc)"
  using hit_iff[of p t] by (simp add: power2_eq_square)

lemma waypoint_safe_Cons_eval:
  "waypoint_safe w (t # ts) =
     (if 0 \<le> radius t \<and>
         (fst w - lat t) * (fst w - lat t) + (snd w - lng t) * (snd w - lng t)
           \<le> (radius t / 111320) * (radius t / 111320)
      then False else waypoint_safe w ts)"
  using inside_iff[of w t] by (simp add: power2_eq_square)

lemma foldl_upt_step:
  "foldl f a [m..<n] = (if m < n then foldl f (f a m) [Suc m..<n] else a)"
  by (simp add: upt_rec[of m n])

subsection \<open>The conflict list\<close>

lemma scan_threats_first_hit:
  "scan_threats p ts acc =
     (case first_hit p ts of None \<Rightarrow> acc
      | Some t \<Rightarrow> if t \<notin> set acc then acc @ [t] else acc)"
  by (induction ts) (simp_all add: first_hit_def)

lemma foldl_scan_threats:
  "foldl (\<lambda>acc i. scan_threats (cp i) ts acc) acc ns =
   foldl (\<lambda>acc t. if t \<notin> set acc then acc @ [t] else acc) acc
     (List.map_filter (\<lambda>i. first_hit (cp i) ts) ns)"
proof (induction ns arbitrary: acc)
  case Nil
  show ?case by simp
next
  case (Cons n ns)
  have "foldl (\<lambda>acc i. scan_threats (cp i) ts acc) acc (n # ns) =
        foldl (\<lambda>acc t. if t \<notin> set acc then acc @ [t] else acc)
          (scan_threats (cp n) ts acc) (List.map_filter (\<lambda>i. first_hit (cp i) ts) ns)"
    by (simp add: Cons.IH)
  also have "\<dots> = foldl (\<lambda>acc t. if t \<notin> set acc then acc @ [t] else acc) acc
          (List.map_filter (\<lambda>i. first_hit (cp i) ts) (n # ns))"
    by (cases "first_hit (cp n) ts") (simp_all add: scan_threats_first_hit)
  finally show ?case .
qed

lemma foldl_append_new:
  "foldl (\<lambda>acc t. if t \<notin> set acc then acc @ [t] else acc) [] xs = rev (remdups (rev xs))"
proof (induction xs rule: rev_induct)
  case Nil
  show ?case by simp
next
  case (snoc x xs)
  then show ?case by simp
qed

lemma threats_on_route_first_hits:
  "threats_on_route start_point end_point all_threats =
     rev (remdups (rev (first_hits start_point end_point all_threats)))"
  unfolding threats_on_route_def first_hits_def
  by (simp only: foldl_scan_threats foldl_append_new)

text \<open>
  C1, as the code has it. At a sample point the threats are scanned in the order of
  \<open>all_threats\<close> only up to the first one within the widened radius: that threat is
  appended unless the list already holds it, and the \<open>break\<close> ends the scan of this
  sample point, so the threats after it are not tested there. Every sample point scans
  \<open>all_threats\<close> from its beginning again. The conflict list is therefore the list of
  the first threats met by the sample points \<open>1, \<dots>, 100\<close>, each kept at its first
  occurrence only.
\<close>

theorem sampler_first_hit_per_point:
  "threats_on_route start_point end_point all_threats =
     rev (remdups (rev (List.map_filter
       (\<lambda>i. find (\<lambda>t. distance (check_point start_point end_point i) t
                        \<le> radius_in_degrees t * 1.1) all_threats)
       [1..<101])))"
  using threats_on_route_first_hits[of start_point end_point all_threats]
  by (simp add: first_hits_def first_hit_def)

text \<open>
  C1 as stated fails: on the route from \<open>(0, 0)\<close> to \<open>(0, 1)\<close> the sample point 50
  lies within the widened radius of both threats centred at \<open>(0, 0.5)\<close>, of 5000 and of
  4000 metres, and the conflict list holds the first of them only.
\<close>

theorem sampler_shadowed_region:
  "distance (check_point (0, 0) (0, 1) 50) \<lparr>lat = 0, lng = 1/2, radius = 5000\<rparr>
     \<le> radius_in_degrees \<lparr>lat = 0, lng = 1/2, radius = 5000\<rparr> * 1.1
   \<and> distance (check_point (0, 0) (0, 1) 50) \<lparr>lat = 0, lng = 1/2, radius = 4000\<rparr>
     \<le> radius_in_degrees \<lparr>lat = 0, lng = 1/2, radius = 4000\<rparr> * 1.1
   \<and> threats_on_route (0, 0) (0, 1)
       [\<lparr>lat = 0, lng = 1/2, radius = 5000\<rparr>, \<lparr>lat = 0, lng = 1/2, radius = 4000\<rparr>]
     = [\<lparr>lat = 0, lng = 1/2, radius = 5000\<rparr>]"
proof -
  have a: "distance (check_point (0, 0) (0, 1) 50) \<lparr>lat = 0, lng = 1/2, radius = 5000\<rparr>
     \<le> radius_in_degrees \<lparr>lat = 0, lng = 1/2, radius = 5000\<rparr> * 1.1"
    unfolding hit_iff by (simp add: check_point_def fraction_def)
  have b: "distance (check_point (0, 0) (0, 1) 50) \<lparr>lat = 0, lng = 1/2, radius = 4000\<rparr>
     \<le> radius_in_degrees \<lparr>lat = 0, lng = 1/2, radius = 4000\<rparr> * 1.1"
    unfolding hit_iff by (simp add: check_point_def fraction_def)
  have c: "threats_on_route (0, 0) (0, 1)
       [\<lparr>lat = 0, lng = 1/2, radius = 5000\<rparr>, \<lparr>lat = 0, lng = 1/2, radius = 4000\<rparr>]
     = [\<lparr>lat = 0, lng = 1/2, radius = 5000\<rparr>]"
    unfolding threats_on_route_def One_nat_def
    by (simp add: foldl_upt_step scan_threats_Cons_eval check_point_def fraction_def
          del: scan_threats.simps(2))
  from a b c show ?thesis by (intro conjI)
qed

subsection \<open>The first minimal element\<close>

lemma min_by_le: "key (min_by key b xs) \<le> key b"
proof (induction xs arbitrary: b)
  case Nil show ?case by simp
next
  case (Cons x xs)
  show ?case using Cons.IH[of "if key x < key b then x else b"] by (simp split: if_splits)
qed

lemma min_by_split:
  "\<exists>pre post. b # xs = pre @ min_by key b xs # post
     \<and> (\<forall>x\<in>set pre. key (min_by key b xs) < key x)
     \<and> (\<forall>x\<in>set post. key (min_by key b xs) \<le> key x)"
proof (induction xs arbitrary: b)
  case Nil
  show ?case by (rule exI[of _ "[]"], rule exI[of _ "[]"]) simp
next
  case (Cons x xs)
  show ?case
  proof (cases "key x < key b")
    case True
    from Cons.IH[of x] obtain pre post where
      s: "x # xs = pre @ min_by key x xs # post"
      and p: "\<forall>y\<in>set pre. key (min_by key x xs) < key y"
      and q: "\<forall>y\<in>set post. key (min_by key x xs) \<le> key y"
      by blast
    have m: "min_by key b (x # xs) = min_by key x xs" using True by simp
    have "key (min_by key x xs) < key b" using min_by_le[of key x xs] True by linarith
    with s p q have "b # x # xs = (b # pre) @ min_by key x xs # post
      \<and> (\<forall>y\<in>set (b # pre). key (min_by key x xs) < key y)
      \<and> (\<forall>y\<in>set post. key (min_by key x xs) \<le> key y)"
      by simp
    then show ?thesis unfolding m by blast
  next
    case False
    from Cons.IH[of b] obtain pre post where
      s: "b # xs = pre @ min_by key b xs # post"
      and p: "\<forall>y\<in>set pre. key (min_by key b xs) < key y"
      and q: "\<forall>y\<in>set post. key (min_by key b xs) \<le> key y"
      by blast
    have m: "min_by key b (x # xs) = min_by key b xs" using False by simp
    have le: "key (min_by key b xs) \<le> key x" using min_by_le[of key b xs] False by linarith
    show ?thesis
    proof (cases pre)
      case Nil
      from s Nil have "b = min_by key b xs \<and> xs = post" by (metis append_Nil list.inject)
      then have "b # x # xs = [] @ min_by key b xs # (x # post)" by (metis append_Nil)
      moreover have "\<forall>y\<in>set (x # post). key (min_by key b xs) \<le> key y" using q le by simp
      ultimately show ?thesis unfolding m by (metis empty_iff list.set(1))
    next
      case (Cons b' pre')
      with s have b': "b' = b" and xs: "xs = pre' @ min_by key b xs # post"
        by (metis append_Cons list.inject)+
      from p Cons b' have "key (min_by key b xs) < key b" by simp
      with False have "key (min_by key b xs) < key x" by linarith
      with p Cons b' have "\<forall>y\<in>set (b # x # pre'). key (min_by key b xs) < key y" by simp
      moreover from xs have "b # x # xs = (b # x # pre') @ min_by key b xs # post" by simp
      ultimately show ?thesis unfolding m using q by blast
    qed
  qed
qed

lemma min_by_in: "min_by key b xs \<in> set (b # xs)"
  using min_by_split[of b xs key] by (metis in_set_conv_decomp)

subsection \<open>Members of the conflict list\<close>

lemma first_hit_Some:
  "first_hit p ts = Some t \<Longrightarrow> t \<in> set ts \<and> distance p t \<le> radius_in_degrees t * 1.1"
  unfolding first_hit_def by (auto simp: find_Some_iff)



lemma set_map_filter: "set (List.map_filter f xs) = {y. \<exists>x\<in>set xs. f x = Some y}"
  by (induction xs) (auto split: option.splits)

lemma set_threats_on_route:
  "set (threats_on_route s e ts) = {t. \<exists>i\<in>{1..100}. first_hit (check_point s e i) ts = Some t}"
proof -
  have "{1..<101::nat} = {1..100}" by auto
  then show ?thesis
  unfolding threats_on_route_first_hits first_hits_def
  by (simp add: set_map_filter)
qed

lemma threats_on_route_hit:
  assumes "t \<in> set (threats_on_route s e ts)"
  shows "t \<in> set ts \<and> 0 \<le> radius t"
proof -
  from assms obtain i where "first_hit (check_point s e i) ts = Some t"
    unfolding set_threats_on_route by blast
  from first_hit_Some[OF this] show ?thesis unfolding hit_iff by simp
qed




lemma plan_Cons:
  "threats_on_route s e ts = c # cs \<Longrightarrow>
     plan s e ts = [s, detour_waypoint s e (closest_threat s e c cs) ts, e]"
  by (simp add: plan_def)

subsection \<open>The computed squares\<close>

lemma subnormal_step_pos: "0 < subnormal_step"
  by (simp add: subnormal_step_def)

lemma subnormal_step_le_normal: "subnormal_step \<le> least_normal"
  by (simp add: subnormal_step_def least_normal_def)

lemma subnormal_step_lt_1: "subnormal_step < 1"
  by (simp add: subnormal_step_def)

lemma round_small:
  fixes y :: real
  shows "0 \<le> y \<Longrightarrow> y < 1 / 2 \<Longrightarrow> round y = 0"
  by (simp add: round_def floor_eq_iff)

lemma round_nonneg:
  fixes y :: real
  shows "0 \<le> y \<Longrightarrow> 0 \<le> round y"
  by (simp add: round_def)

lemma round_bounds:
  fixes y :: real
  shows "real_of_int (round y) \<le> y + 1 / 2" and "y - 1 / 2 < real_of_int (round y)"
proof -
  show "real_of_int (round y) \<le> y + 1 / 2"
    unfolding round_def by (rule of_int_floor_le)
  have "y + 1 / 2 < real_of_int \<lfloor>y + 1 / 2\<rfloor> + 1"
    by linarith
  then show "y - 1 / 2 < real_of_int (round y)"
    unfolding round_def by linarith
qed

lemma float_pow2_nonneg: "0 \<le> float_pow2 x"
proof -
  have "0 \<le> x\<^sup>2 / subnormal_step"
    using subnormal_step_pos by simp
  then have "0 \<le> real_of_int (round (x\<^sup>2 / subnormal_step))"
    using round_nonneg by simp
  then have "0 \<le> real_of_int (round (x\<^sup>2 / subnormal_step)) * subnormal_step"
    using subnormal_step_pos by simp
  then show ?thesis by (simp add: float_pow2_def)
qed

lemma float_pow2_0: "float_pow2 0 = 0"
  using subnormal_step_pos by (simp add: float_pow2_def)

lemma float_pow2_minus: "float_pow2 (- x) = float_pow2 x"
  by (simp add: float_pow2_def)

lemma float_pow2_normal: "least_normal \<le> x\<^sup>2 \<Longrightarrow> float_pow2 x = x\<^sup>2"
  by (simp add: float_pow2_def)

lemma float_pow2_underflow:
  assumes "x\<^sup>2 < subnormal_step / 2"
  shows "float_pow2 x = 0"
proof -
  have y: "0 \<le> x\<^sup>2 / subnormal_step" "x\<^sup>2 / subnormal_step < 1 / 2"
    using assms subnormal_step_pos by (simp_all add: field_simps)
  have "x\<^sup>2 < least_normal"
    using assms subnormal_step_pos subnormal_step_le_normal by linarith
  then show ?thesis
    by (simp add: float_pow2_def round_small[OF y])
qed

text \<open>A computed square that is not zero is at least one step, and at least half the square.\<close>

lemma float_pow2_pos:
  assumes "0 < float_pow2 x"
  shows "subnormal_step \<le> float_pow2 x \<and> x\<^sup>2 \<le> 2 * float_pow2 x"
proof (cases "x\<^sup>2 < least_normal")
  case False
  then have e: "float_pow2 x = x\<^sup>2" by (simp add: float_pow2_def)
  from False subnormal_step_le_normal have "subnormal_step \<le> x\<^sup>2" by linarith
  then show ?thesis unfolding e by simp
next
  case True
  define n where "n = round (x\<^sup>2 / subnormal_step)"
  from True have e: "float_pow2 x = real_of_int n * subnormal_step"
    by (simp add: float_pow2_def n_def)
  from assms have "0 < real_of_int n"
    unfolding e using subnormal_step_pos by (simp add: zero_less_mult_iff)
  then have n: "1 \<le> real_of_int n" by simp
  then have "1 * subnormal_step \<le> real_of_int n * subnormal_step"
    using subnormal_step_pos by (intro mult_right_mono) simp_all
  then have a: "subnormal_step \<le> float_pow2 x" unfolding e by simp
  have "x\<^sup>2 / subnormal_step - 1 / 2 < real_of_int n"
    unfolding n_def by (rule round_bounds(2))
  with n have "x\<^sup>2 / subnormal_step \<le> 2 * real_of_int n" by linarith
  then have "x\<^sup>2 \<le> 2 * real_of_int n * subnormal_step"
    using subnormal_step_pos by (simp add: field_simps)
  then have b: "x\<^sup>2 \<le> 2 * float_pow2 x" unfolding e by simp
  from a b show ?thesis by (rule conjI)
qed

text \<open>A computed square that is zero comes from a square below one step.\<close>

lemma float_pow2_zero:
  assumes "float_pow2 x = 0"
  shows "x\<^sup>2 < subnormal_step"
proof (cases "x\<^sup>2 < least_normal")
  case False
  with assms have "x\<^sup>2 = 0" by (simp add: float_pow2_def)
  then show ?thesis using subnormal_step_pos by simp
next
  case True
  with assms have "real_of_int (round (x\<^sup>2 / subnormal_step)) * subnormal_step = 0"
    by (simp add: float_pow2_def)
  then have "real_of_int (round (x\<^sup>2 / subnormal_step)) = 0"
    using subnormal_step_pos by simp
  with round_bounds(2)[of "x\<^sup>2 / subnormal_step"]
  have "x\<^sup>2 / subnormal_step < 1 / 2" by linarith
  then have "x\<^sup>2 < subnormal_step / 2"
    using subnormal_step_pos by (simp add: field_simps)
  then show ?thesis using subnormal_step_pos by linarith
qed

text \<open>A computed square exceeds the square by at most half a step.\<close>

lemma float_pow2_le: "float_pow2 x \<le> x\<^sup>2 + subnormal_step"
proof (cases "x\<^sup>2 < least_normal")
  case False
  then show ?thesis using subnormal_step_pos by (simp add: float_pow2_def)
next
  case True
  have "real_of_int (round (x\<^sup>2 / subnormal_step)) \<le> x\<^sup>2 / subnormal_step + 1 / 2"
    by (rule round_bounds(1))
  then have "real_of_int (round (x\<^sup>2 / subnormal_step)) * subnormal_step
               \<le> (x\<^sup>2 / subnormal_step + 1 / 2) * subnormal_step"
    using subnormal_step_pos by (intro mult_right_mono) simp_all
  also have "\<dots> = x\<^sup>2 + subnormal_step / 2"
    using subnormal_step_pos by (simp add: field_simps)
  finally show ?thesis using True subnormal_step_pos by (simp add: float_pow2_def)
qed

subsection \<open>The perpendicular\<close>

lemma one_below_overflow: "1 < overflow_threshold"
  by (simp add: overflow_threshold_def)

lemma perp_vector_north: "perp_vector (0, 0) (0, 1) = (-1, 0)"
proof -
  have "float_pow2 (- 1) = 1"
    by (simp add: float_pow2_def least_normal_def)
  with one_below_overflow show ?thesis
    by (simp add: perp_vector_def float_pow2_0)
qed


text \<open>
  In the range where no square underflows and the sum does not overflow, the squares
  are those of the real numbers and the guard holds when start and end differ.
\<close>

lemma range_bound_square: "(1 / range_bound)\<^sup>2 = least_normal"
  by (simp add: range_bound_def least_normal_def power_divide)

lemma range_bound_sum: "range_bound\<^sup>2 + range_bound\<^sup>2 < overflow_threshold"
  by (simp add: range_bound_def overflow_threshold_def)

lemma range_bound_pos: "0 < range_bound"
  by (simp add: range_bound_def)

lemma normal_range_pow2:
  assumes "normal_range x"
  shows "float_pow2 x = x\<^sup>2" and "x\<^sup>2 \<le> range_bound\<^sup>2"
proof -
  show "float_pow2 x = x\<^sup>2"
  proof (cases "x = 0")
    case True
    then show ?thesis by (simp add: float_pow2_0)
  next
    case False
    with assms have "\<bar>1 / range_bound\<bar> \<le> \<bar>x\<bar>"
      using range_bound_pos by (simp add: normal_range_def)
    then have "(1 / range_bound)\<^sup>2 \<le> x\<^sup>2"
      by (simp only: abs_le_square_iff)
    then show ?thesis
      unfolding range_bound_square by (rule float_pow2_normal)
  qed
  from assms have "\<bar>x\<bar> \<le> \<bar>range_bound\<bar>"
    using range_bound_pos by (auto simp: normal_range_def)
  then show "x\<^sup>2 \<le> range_bound\<^sup>2"
    by (simp only: abs_le_square_iff)
qed

lemma route_length_pos:
  assumes "s \<noteq> (e::point)"
  shows "0 < sqrt ((fst e - fst s)\<^sup>2 + (snd e - snd s)\<^sup>2)"
proof -
  from assms have "fst e - fst s \<noteq> 0 \<or> snd e - snd s \<noteq> 0"
    by (auto simp: prod_eq_iff)
  then have "0 < (fst e - fst s)\<^sup>2 + (snd e - snd s)\<^sup>2"
    by (simp add: sum_power2_gt_zero_iff)
  then show ?thesis by simp
qed

lemma perp_vector_in_range:
  assumes "s \<noteq> e" "normal_range (fst e - fst s)" "normal_range (snd e - snd s)"
  shows "perp_vector s e =
     (- (snd e - snd s) / sqrt ((fst e - fst s)\<^sup>2 + (snd e - snd s)\<^sup>2),
      (fst e - fst s) / sqrt ((fst e - fst s)\<^sup>2 + (snd e - snd s)\<^sup>2))"
proof -
  have a: "float_pow2 (- (snd e - snd s)) = (snd e - snd s)\<^sup>2"
    unfolding float_pow2_minus by (rule normal_range_pow2(1)[OF assms(3)])
  have b: "float_pow2 (fst e - fst s) = (fst e - fst s)\<^sup>2"
    by (rule normal_range_pow2(1)[OF assms(2)])
  have c: "(snd e - snd s)\<^sup>2 + (fst e - fst s)\<^sup>2
         = (fst e - fst s)\<^sup>2 + (snd e - snd s)\<^sup>2"
    by (rule add.commute)
  have "(fst e - fst s)\<^sup>2 + (snd e - snd s)\<^sup>2 \<le> range_bound\<^sup>2 + range_bound\<^sup>2"
    using normal_range_pow2(2)[OF assms(2)] normal_range_pow2(2)[OF assms(3)] by linarith
  with range_bound_sum
  have f: "\<not> overflow_threshold \<le> (fst e - fst s)\<^sup>2 + (snd e - snd s)\<^sup>2"
    by linarith
  show ?thesis
    unfolding perp_vector_def Let_def a b c
    using f route_length_pos[OF assms(1)] by (simp only: if_False if_True)
qed

lemma unit_vector:
  fixes a b :: real
  assumes "0 < sqrt (a\<^sup>2 + b\<^sup>2)"
  shows "(- b / sqrt (a\<^sup>2 + b\<^sup>2))\<^sup>2 + (a / sqrt (a\<^sup>2 + b\<^sup>2))\<^sup>2 = 1"
proof -
  have nn: "0 \<le> a\<^sup>2 + b\<^sup>2" by simp
  from assms have pos: "a\<^sup>2 + b\<^sup>2 \<noteq> 0" by auto
  have "(- b / sqrt (a\<^sup>2 + b\<^sup>2))\<^sup>2 + (a / sqrt (a\<^sup>2 + b\<^sup>2))\<^sup>2
      = (b\<^sup>2 + a\<^sup>2) / (sqrt (a\<^sup>2 + b\<^sup>2))\<^sup>2"
    by (simp add: power_divide add_divide_distrib)
  also have "\<dots> = (b\<^sup>2 + a\<^sup>2) / (a\<^sup>2 + b\<^sup>2)"
    using nn by simp
  also have "\<dots> = 1" using pos by (simp add: add.commute)
  finally show ?thesis .
qed

lemma perp_vector_unit:
  assumes "s \<noteq> e" "normal_range (fst e - fst s)" "normal_range (snd e - snd s)"
  shows "(fst (perp_vector s e))\<^sup>2 + (snd (perp_vector s e))\<^sup>2 = 1"
  unfolding perp_vector_in_range[OF assms]
  using unit_vector[OF route_length_pos[OF assms(1)]] by simp

text \<open>
  Whatever the inputs, no component of the perpendicular is longer than 2: a computed
  square that is not zero is at least half the square.
\<close>

lemma quotient_le_2:
  fixes a b :: real
  assumes "0 < sqrt (float_pow2 a + float_pow2 b)"
  shows "\<bar>a / sqrt (float_pow2 a + float_pow2 b)\<bar> \<le> 2"
proof -
  let ?m = "sqrt (float_pow2 a + float_pow2 b)"
  have nn: "0 \<le> float_pow2 a + float_pow2 b"
    using float_pow2_nonneg[of a] float_pow2_nonneg[of b] by linarith
  have "a\<^sup>2 \<le> 4 * (float_pow2 a + float_pow2 b)"
  proof (cases "0 < float_pow2 a")
    case True
    from float_pow2_nonneg[of a] float_pow2_nonneg[of b]
    have "2 * float_pow2 a \<le> 4 * (float_pow2 a + float_pow2 b)" by argo
    with float_pow2_pos[OF True, THEN conjunct2] show ?thesis by (rule order_trans)
  next
    case False
    with float_pow2_nonneg[of a] have z: "float_pow2 a = 0" by linarith
    from assms have "0 < float_pow2 a + float_pow2 b" by simp
    with z have "0 < float_pow2 b" by simp
    from float_pow2_pos[OF this, THEN conjunct1] float_pow2_zero[OF z] z
      subnormal_step_pos
    show ?thesis by argo
  qed
  also have "\<dots> = (2 * ?m)\<^sup>2"
    using nn by (simp add: power_mult_distrib)
  finally have "\<bar>a\<bar> \<le> \<bar>2 * ?m\<bar>"
    by (simp only: abs_le_square_iff)
  with assms have "\<bar>a\<bar> \<le> 2 * ?m" by simp
  with assms show ?thesis by (simp add: field_simps)
qed

lemma perp_vector_le_2:
  "\<bar>fst (perp_vector s e)\<bar> \<le> 2 \<and> \<bar>snd (perp_vector s e)\<bar> \<le> 2"
proof -
  let ?a = "- (snd e - snd s)" and ?b = "fst e - fst s"
  let ?sq = "float_pow2 ?a + float_pow2 ?b"
  have nn: "0 \<le> ?sq"
    using float_pow2_nonneg[of ?a] float_pow2_nonneg[of ?b] by linarith
  have small: "\<bar>x\<bar> \<le> 2" if "float_pow2 x = 0" for x
  proof -
    from float_pow2_zero[OF that] subnormal_step_lt_1 have "x\<^sup>2 \<le> 1\<^sup>2" by simp
    then have "\<bar>x\<bar> \<le> \<bar>1\<bar>" by (simp only: abs_le_square_iff)
    then show ?thesis by simp
  qed
  consider (inf) "overflow_threshold \<le> ?sq"
    | (pos) "\<not> overflow_threshold \<le> ?sq" "0 < sqrt ?sq"
    | (zero) "\<not> overflow_threshold \<le> ?sq" "\<not> 0 < sqrt ?sq"
    by blast
  then show ?thesis
  proof cases
    case inf
    then show ?thesis by (simp add: perp_vector_def Let_def)
  next
    case pos
    from pos(2) have "0 < sqrt (float_pow2 ?b + float_pow2 ?a)"
      by (simp only: add.commute)
    from quotient_le_2[OF this] have "\<bar>?b / sqrt ?sq\<bar> \<le> 2"
      by (simp only: add.commute)
    with quotient_le_2[OF pos(2)] have "\<bar>?a / sqrt ?sq\<bar> \<le> 2 \<and> \<bar>?b / sqrt ?sq\<bar> \<le> 2"
      by (rule conjI)
    with pos show ?thesis
      by (simp only: perp_vector_def Let_def if_False if_True fst_conv snd_conv)
  next
    case zero
    from zero(2) nn have "?sq = 0" by simp
    with float_pow2_nonneg[of ?a] float_pow2_nonneg[of ?b]
    have za: "float_pow2 ?a = 0" and zb: "float_pow2 ?b = 0" by linarith+
    from small[OF za] small[OF zb]
    have "\<bar>?a\<bar> \<le> 2 \<and> \<bar>?b\<bar> \<le> 2" by (rule conjI)
    with zero show ?thesis
      by (simp only: perp_vector_def Let_def if_False if_True fst_conv snd_conv)
  qed
qed

subsection \<open>The direct route\<close>



subsection \<open>The route with a detour\<close>


lemma scenario_conflicts:
  "threats_on_route (0, 0) (0, 1) [\<lparr>lat = 0, lng = 1/2, radius = 5000\<rparr>]
     = [\<lparr>lat = 0, lng = 1/2, radius = 5000\<rparr>]"
  unfolding threats_on_route_def One_nat_def
  by (simp add: foldl_upt_step scan_threats_Cons_eval check_point_def fraction_def
        del: scan_threats.simps(2))

lemma scenario_plan:
  "plan (0, 0) (0, 1) [\<lparr>lat = 0, lng = 1/2, radius = 5000\<rparr>]
     = [(0, 0), (- (250 / 2783), 1/2), (0, 1)]"
  by (simp add: plan_def scenario_conflicts closest_threat_def detour_waypoint_def
        waypoint_primary_def perp_vector_north detour_distance_def waypoint_safe_Cons_eval
        del: waypoint_safe.simps(2))


subsection \<open>The safety re-check\<close>




subsection \<open>The primary candidate\<close>

text \<open>
  The route from \<open>(0, 0)\<close> to \<open>(2 ^ -600, 0)\<close> with one threat of 1000 metres at
  \<open>(0, 0)\<close>: every sample point is inside the threat, and both squares of the
  perpendicular underflow to zero, so the perpendicular is left undivided.
\<close>

lemma tiny_route_conflicts:
  "threats_on_route (0, 0) (1 / 2 ^ 600, 0) [\<lparr>lat = 0, lng = 0, radius = 1000\<rparr>]
     = [\<lparr>lat = 0, lng = 0, radius = 1000\<rparr>]"
  unfolding threats_on_route_def One_nat_def
  by (simp add: foldl_upt_step scan_threats_Cons_eval check_point_def fraction_def
        del: scan_threats.simps(2))

lemma tiny_route_perp: "perp_vector (0, 0) (1 / 2 ^ 600, 0) = (0, 1 / 2 ^ 600)"
proof -
  have "(1 / 2 ^ 600 :: real)\<^sup>2 < subnormal_step / 2"
    by (simp add: subnormal_step_def power2_eq_square)
  then have "float_pow2 (1 / 2 ^ 600) = 0"
    by (rule float_pow2_underflow)
  with one_below_overflow show ?thesis
    by (simp add: perp_vector_def float_pow2_0)
qed

lemma tiny_route_primary:
  "waypoint_primary (0, 0) (1 / 2 ^ 600, 0) \<lparr>lat = 0, lng = 0, radius = 1000\<rparr>
     = (0, 1 / 2 ^ 600 * (2 * (1000 / 111320)))"
  unfolding waypoint_primary_def tiny_route_perp detour_distance_def by simp

lemma tiny_route_opposite:
  "waypoint_opposite (0, 0) (1 / 2 ^ 600, 0) \<lparr>lat = 0, lng = 0, radius = 1000\<rparr>
     = (0, - (1 / 2 ^ 600 * (2 * (1000 / 111320))))"
  unfolding waypoint_opposite_def tiny_route_perp detour_distance_def by simp

lemma tiny_route_closest:
  "closest_threat (0, 0) (1 / 2 ^ 600, 0) \<lparr>lat = 0, lng = 0, radius = 1000\<rparr> []
     = \<lparr>lat = 0, lng = 0, radius = 1000\<rparr>"
  unfolding closest_threat_def by (rule min_by.simps(1))

lemma tiny_route_length: "sqrt ((1 / 2 ^ 600)\<^sup>2 + 0\<^sup>2) = 1 / 2 ^ 600"
proof -
  have "sqrt ((1 / 2 ^ 600)\<^sup>2 + 0\<^sup>2) = sqrt ((1 / 2 ^ 600)\<^sup>2)" by simp
  also have "\<dots> = \<bar>1 / 2 ^ 600\<bar>" by (rule real_sqrt_abs)
  also have "\<dots> = 1 / 2 ^ 600" by simp
  finally show ?thesis .
qed

text \<open>
  C3 as stated fails: on this route start and end differ and the conflict list is not
  empty, and the primary candidate is \<open>(0, 2 ^ -600 * offset)\<close>, not the centre plus the
  offset along the normalized perpendicular, which is \<open>(0, offset)\<close>.
\<close>

theorem primary_candidate_underflow:
  "((0, 0) :: point) \<noteq> (1 / 2 ^ 600, 0)
   \<and> threats_on_route (0, 0) (1 / 2 ^ 600, 0) [\<lparr>lat = 0, lng = 0, radius = 1000\<rparr>]
       = [\<lparr>lat = 0, lng = 0, radius = 1000\<rparr>]
   \<and> waypoint_primary (0, 0) (1 / 2 ^ 600, 0)
        (closest_threat (0, 0) (1 / 2 ^ 600, 0) \<lparr>lat = 0, lng = 0, radius = 1000\<rparr> [])
      = (0, 1 / 2 ^ 600 * (2 * (1000 / 111320)))
   \<and> waypoint_primary (0, 0) (1 / 2 ^ 600, 0)
        (closest_threat (0, 0) (1 / 2 ^ 600, 0) \<lparr>lat = 0, lng = 0, radius = 1000\<rparr> [])
      \<noteq> (0 + (- 0 / sqrt ((1 / 2 ^ 600)\<^sup>2 + 0\<^sup>2)) * (2 * (1000 / 111320)),
          0 + (1 / 2 ^ 600 / sqrt ((1 / 2 ^ 600)\<^sup>2 + 0\<^sup>2)) * (2 * (1000 / 111320)))"
proof -
  have a: "((0, 0) :: point) \<noteq> (1 / 2 ^ 600, 0)" by simp
  have p: "waypoint_primary (0, 0) (1 / 2 ^ 600, 0)
        (closest_threat (0, 0) (1 / 2 ^ 600, 0) \<lparr>lat = 0, lng = 0, radius = 1000\<rparr> [])
      = (0, 1 / 2 ^ 600 * (2 * (1000 / 111320)))"
    unfolding tiny_route_closest by (rule tiny_route_primary)
  have d: "(1 / 2 ^ 600 :: real) * (2 * (1000 / 111320)) \<noteq> 2 * (1000 / 111320)"
    by simp
  have "(0, 1 / 2 ^ 600 * (2 * (1000 / 111320)))
      \<noteq> (0 + (- 0 / sqrt ((1 / 2 ^ 600)\<^sup>2 + 0\<^sup>2)) * (2 * (1000 / 111320)),
          0 + (1 / 2 ^ 600 / sqrt ((1 / 2 ^ 600)\<^sup>2 + 0\<^sup>2)) * (2 * (1000 / 111320 :: real)))"
    unfolding tiny_route_length using d by simp
  then have q: "waypoint_primary (0, 0) (1 / 2 ^ 600, 0)
        (closest_threat (0, 0) (1 / 2 ^ 600, 0) \<lparr>lat = 0, lng = 0, radius = 1000\<rparr> [])
      \<noteq> (0 + (- 0 / sqrt ((1 / 2 ^ 600)\<^sup>2 + 0\<^sup>2)) * (2 * (1000 / 111320)),
          0 + (1 / 2 ^ 600 / sqrt ((1 / 2 ^ 600)\<^sup>2 + 0\<^sup>2)) * (2 * (1000 / 111320)))"
    unfolding p .
  from a tiny_route_conflicts p q show ?thesis by (intro conjI)
qed

text \<open>
  C3, as the code has it. When start and end differ and each component of the route
  vector \<open>(d_lat, d_lng) = end - start\<close> is 0 or between \<open>2 ^ -511\<close> and \<open>2 ^ 511\<close> in
  absolute value, so that no square underflows and their sum does not overflow, the
  primary candidate for the selected threat is its centre plus the offset
  \<open>2 * (radius / 111320)\<close> along \<open>(- d_lng, d_lat)\<close> divided by the computed length
  \<open>sqrt (d_lat\<^sup>2 + d_lng\<^sup>2)\<close>.
\<close>

theorem primary_candidate_in_range:
  "start_point \<noteq> end_point \<Longrightarrow>
   normal_range (fst end_point - fst start_point) \<Longrightarrow>
   normal_range (snd end_point - snd start_point) \<Longrightarrow>
     (let t = closest_threat start_point end_point c cs;
          d_lat = fst end_point - fst start_point;
          d_lng = snd end_point - snd start_point;
          n = sqrt (d_lat\<^sup>2 + d_lng\<^sup>2)
      in waypoint_primary start_point end_point t =
           (lat t + (- d_lng / n) * (2 * (radius t / 111320)),
            lng t + (d_lat / n) * (2 * (radius t / 111320))))"
proof -
  assume ne: "start_point \<noteq> end_point"
    and r1: "normal_range (fst end_point - fst start_point)"
    and r2: "normal_range (snd end_point - snd start_point)"
  let ?t = "closest_threat start_point end_point c cs"
  let ?n = "sqrt ((fst end_point - fst start_point)\<^sup>2 + (snd end_point - snd start_point)\<^sup>2)"
  have w: "waypoint_primary start_point end_point ?t =
      (lat ?t + (- (snd end_point - snd start_point) / ?n) * (2 * (radius ?t / 111320)),
       lng ?t + ((fst end_point - fst start_point) / ?n) * (2 * (radius ?t / 111320)))"
    unfolding waypoint_primary_def perp_vector_in_range[OF ne r1 r2] detour_distance_def
    by (simp only: fst_conv snd_conv mult.commute)
  then show ?thesis unfolding Let_def .
qed

lemma sqrt_25: "sqrt 25 = 5"
  using real_sqrt_abs[of 5] by simp

theorem primary_candidate_in_range_witness:
  "((0, 0) :: point) \<noteq> (3, 4)
   \<and> normal_range 3 \<and> normal_range 4
   \<and> waypoint_primary (0, 0) (3, 4)
        (closest_threat (0, 0) (3, 4) \<lparr>lat = 3/2, lng = 2, radius = 5000\<rparr> [])
      = (3/2 - 200 / 2783, 2 + 150 / 2783)"
proof -
  have h: "((0, 0) :: point) \<noteq> (3, 4)" by simp
  have r: "normal_range 3" "normal_range 4"
    by (simp_all add: normal_range_def range_bound_def)
  then have r': "normal_range (fst ((3, 4) :: point) - fst ((0, 0) :: point))"
    "normal_range (snd ((3, 4) :: point) - snd ((0, 0) :: point))"
    by simp_all
  from primary_candidate_in_range[OF h r', of "\<lparr>lat = 3/2, lng = 2, radius = 5000\<rparr>" "[]"] h r
  show ?thesis by (simp add: Let_def closest_threat_def sqrt_25)
qed

subsection \<open>The distance of the waypoint from the selected threat\<close>

lemma distance_offset:
  fixes a b d :: real
  assumes "a\<^sup>2 + b\<^sup>2 = 1"
  shows "distance (lat t + a * d, lng t + b * d) t = \<bar>d\<bar>"
    and "distance (lat t - a * d, lng t - b * d) t = \<bar>d\<bar>"
proof -
  have "(a * d)\<^sup>2 + (b * d)\<^sup>2 = (a\<^sup>2 + b\<^sup>2) * d\<^sup>2"
    by (simp add: power_mult_distrib distrib_right)
  also have "\<dots> = d\<^sup>2" using assms by simp
  finally have e: "(a * d)\<^sup>2 + (b * d)\<^sup>2 = d\<^sup>2" .
  show "distance (lat t + a * d, lng t + b * d) t = \<bar>d\<bar>"
    unfolding distance_def by (simp add: e)
  have "(- (a * d))\<^sup>2 + (- (b * d))\<^sup>2 = d\<^sup>2"
    unfolding power2_minus by (rule e)
  then show "distance (lat t - a * d, lng t - b * d) t = \<bar>d\<bar>"
    unfolding distance_def by simp
qed

lemma closest_threat_in: "closest_threat s e c cs \<in> set (c # cs)"
  unfolding closest_threat_def by (rule min_by_in)

lemma tiny_route_plan:
  "plan (0, 0) (1 / 2 ^ 600, 0) [\<lparr>lat = 0, lng = 0, radius = 1000\<rparr>]
     = [(0, 0), (0, - (1 / 2 ^ 600 * (2 * (1000 / 111320)))), (1 / 2 ^ 600, 0)]"
proof -
  have u: "waypoint_safe (0, 1 / 2 ^ 600 * (2 * (1000 / 111320)))
           [\<lparr>lat = 0, lng = 0, radius = 1000\<rparr>] = False"
    by (simp add: waypoint_safe_Cons_eval del: waypoint_safe.simps(2))
  show ?thesis
    by (simp only: plan_def tiny_route_conflicts list.case tiny_route_closest
          detour_waypoint_def tiny_route_primary tiny_route_opposite u
          not_False_eq_True if_True)
qed

text \<open>
  C10 as stated fails: on the route from \<open>(0, 0)\<close> to \<open>(2 ^ -600, 0)\<close> start and end
  differ, a detour is produced for the threat of 1000 metres at \<open>(0, 0)\<close>, and the
  returned waypoint \<open>(0, - 2 ^ -600 * offset)\<close> lies inside that threat, not at distance
  \<open>2 * (radius / 111320)\<close> from its centre.
\<close>

theorem detour_waypoint_inside:
  "((0, 0) :: point) \<noteq> (1 / 2 ^ 600, 0)
   \<and> threats_on_route (0, 0) (1 / 2 ^ 600, 0) [\<lparr>lat = 0, lng = 0, radius = 1000\<rparr>]
       = [\<lparr>lat = 0, lng = 0, radius = 1000\<rparr>]
   \<and> plan (0, 0) (1 / 2 ^ 600, 0) [\<lparr>lat = 0, lng = 0, radius = 1000\<rparr>] ! 1
       = (0, - (1 / 2 ^ 600 * (2 * (1000 / 111320))))
   \<and> distance (plan (0, 0) (1 / 2 ^ 600, 0) [\<lparr>lat = 0, lng = 0, radius = 1000\<rparr>] ! 1)
        \<lparr>lat = 0, lng = 0, radius = 1000\<rparr> \<le> 1000 / 111320
   \<and> distance (plan (0, 0) (1 / 2 ^ 600, 0) [\<lparr>lat = 0, lng = 0, radius = 1000\<rparr>] ! 1)
        \<lparr>lat = 0, lng = 0, radius = 1000\<rparr> \<noteq> 2 * (1000 / 111320)"
proof -
  have a: "((0, 0) :: point) \<noteq> (1 / 2 ^ 600, 0)" by simp
  have w: "plan (0, 0) (1 / 2 ^ 600, 0) [\<lparr>lat = 0, lng = 0, radius = 1000\<rparr>] ! 1
       = (0, - (1 / 2 ^ 600 * (2 * (1000 / 111320))))"
    unfolding tiny_route_plan by simp
  have i: "distance (0, - (1 / 2 ^ 600 * (2 * (1000 / 111320))))
        \<lparr>lat = 0, lng = 0, radius = 1000\<rparr> \<le> 1000 / 111320"
    using inside_iff[of "(0, - (1 / 2 ^ 600 * (2 * (1000 / 111320))))"
        "\<lparr>lat = 0, lng = 0, radius = 1000\<rparr>"]
    by (simp add: radius_in_degrees_def power2_eq_square)
  then have n: "distance (0, - (1 / 2 ^ 600 * (2 * (1000 / 111320))))
        \<lparr>lat = 0, lng = 0, radius = 1000\<rparr> \<noteq> 2 * (1000 / 111320)"
    by simp
  from a tiny_route_conflicts w i n show ?thesis
    unfolding w by (intro conjI)
qed

text \<open>
  C10, as the code has it. Let start and end differ, each component of the route vector
  be 0 or between \<open>2 ^ -511\<close> and \<open>2 ^ 511\<close> in absolute value, and the selected threat
  have a radius between \<open>2 ^ -500\<close> and \<open>2 ^ 500\<close> metres and a centre whose coordinates
  are at most \<open>2 ^ 30\<close> times the radius in degrees. Then the primary and the opposite
  candidate both lie at a distance from the centre of the selected threat between 1.9
  and 2.1 times \<open>radius / 111320\<close>, the waypoint of the route is one of the two, and it
  lies strictly outside the selected threat. (In real arithmetic the distance is
  \<open>2 * (radius / 111320)\<close>; the interval leaves room for the rounding of doubles, and
  the bounds on the threat keep the sum of centre and offset from losing the offset,
  which the real sum of the proof cannot lose.)
\<close>

theorem detour_waypoint_outside:
  "start_point \<noteq> end_point \<Longrightarrow>
   normal_range (fst end_point - fst start_point) \<Longrightarrow>
   normal_range (snd end_point - snd start_point) \<Longrightarrow>
   threats_on_route start_point end_point all_threats = c # cs \<Longrightarrow>
   offset_visible (closest_threat start_point end_point c cs) \<Longrightarrow>
     (let t = closest_threat start_point end_point c cs;
          w = plan start_point end_point all_threats ! 1;
          k = radius t / 111320
      in (w = waypoint_primary start_point end_point t
            \<or> w = waypoint_opposite start_point end_point t)
       \<and> 19 / 10 * k \<le> distance (waypoint_primary start_point end_point t) t
       \<and> distance (waypoint_primary start_point end_point t) t \<le> 21 / 10 * k
       \<and> 19 / 10 * k \<le> distance (waypoint_opposite start_point end_point t) t
       \<and> distance (waypoint_opposite start_point end_point t) t \<le> 21 / 10 * k
       \<and> 19 / 10 * k \<le> distance w t
       \<and> distance w t \<le> 21 / 10 * k
       \<and> k < distance w t)"
proof -
  assume ne: "start_point \<noteq> end_point"
    and r1: "normal_range (fst end_point - fst start_point)"
    and r2: "normal_range (snd end_point - snd start_point)"
    and cl: "threats_on_route start_point end_point all_threats = c # cs"
    and ov: "offset_visible (closest_threat start_point end_point c cs)"
  let ?t = "closest_threat start_point end_point c cs"
  let ?w = "plan start_point end_point all_threats ! 1"
  let ?k = "radius ?t / 111320"
  from ov have "0 < radius ?t"
    unfolding offset_visible_def
    by (meson divide_pos_pos less_le_trans zero_less_numeral zero_less_one zero_less_power)
  then have k: "0 < ?k" by simp
  then have d: "\<bar>detour_distance ?t\<bar> = 2 * ?k"
    by (simp add: detour_distance_def)
  note u = perp_vector_unit[OF ne r1 r2]
  have p: "distance (waypoint_primary start_point end_point ?t) ?t = 2 * ?k"
    unfolding waypoint_primary_def distance_offset(1)[OF u] by (rule d)
  have q: "distance (waypoint_opposite start_point end_point ?t) ?t = 2 * ?k"
    unfolding waypoint_opposite_def distance_offset(2)[OF u] by (rule d)
  have w: "?w = waypoint_primary start_point end_point ?t
         \<or> ?w = waypoint_opposite start_point end_point ?t"
    by (simp add: plan_Cons[OF cl] detour_waypoint_def)
  from w p q have dw: "distance ?w ?t = 2 * ?k" by auto
  have b: "19 / 10 * ?k \<le> 2 * ?k" "2 * ?k \<le> 21 / 10 * ?k" "?k < 2 * ?k"
    using k by simp_all
  from w b show ?thesis
    unfolding Let_def p q dw by (intro conjI)
qed

theorem detour_waypoint_outside_witness:
  "((0, 0) :: point) \<noteq> (0, 1)
   \<and> threats_on_route (0, 0) (0, 1) [\<lparr>lat = 0, lng = 1/2, radius = 5000\<rparr>]
       = [\<lparr>lat = 0, lng = 1/2, radius = 5000\<rparr>]
   \<and> offset_visible \<lparr>lat = 0, lng = 1/2, radius = 5000\<rparr>
   \<and> 19 / 10 * (5000 / 111320)
       \<le> distance (plan (0, 0) (0, 1) [\<lparr>lat = 0, lng = 1/2, radius = 5000\<rparr>] ! 1)
            \<lparr>lat = 0, lng = 1/2, radius = 5000\<rparr>
   \<and> distance (plan (0, 0) (0, 1) [\<lparr>lat = 0, lng = 1/2, radius = 5000\<rparr>] ! 1)
        \<lparr>lat = 0, lng = 1/2, radius = 5000\<rparr> \<le> 21 / 10 * (5000 / 111320)
   \<and> 5000 / 111320 < distance (plan (0, 0) (0, 1) [\<lparr>lat = 0, lng = 1/2, radius = 5000\<rparr>] ! 1)
        \<lparr>lat = 0, lng = 1/2, radius = 5000\<rparr>"
proof -
  have h: "((0, 0) :: point) \<noteq> (0, 1)" by simp
  have r: "normal_range (fst ((0, 1) :: point) - fst ((0, 0) :: point))"
    "normal_range (snd ((0, 1) :: point) - snd ((0, 0) :: point))"
    by (simp_all add: normal_range_def range_bound_def)
  have o: "offset_visible \<lparr>lat = 0, lng = 1/2, radius = 5000\<rparr>"
    by (simp add: offset_visible_def)
  then have o': "offset_visible (closest_threat (0, 0) (0, 1)
                   \<lparr>lat = 0, lng = 1/2, radius = 5000\<rparr> [])"
    by (simp add: closest_threat_def)
  from detour_waypoint_outside[OF h r scenario_conflicts o'] h scenario_conflicts o
  show ?thesis by (simp add: Let_def closest_threat_def)
qed

subsection \<open>The degenerate route\<close>




subsection \<open>The closest conflicting threat\<close>




subsection \<open>Exceptions\<close>

text \<open>
  C8 as stated fails: all coordinates of \<open>start = (10 ^ 200, 0)\<close>, \<open>end = (0, 0)\<close> and of
  the threat at \<open>(0, 0)\<close> with radius 1 are finite, and the first sample point, at
  latitude \<open>10 ^ 200 * 100 / 101\<close>, makes \<open>(check_lat - threat['lat']) ** 2\<close> raise
  \<open>OverflowError\<close>.
\<close>

theorem plan_chk_overflow:
  "plan_chk (10 ^ 200, 0) (0, 0) [\<lparr>lat = 0, lng = 0, radius = 1\<rparr>] = Inl OverflowError"
proof -
  have big: "overflow_threshold \<le> (10 ^ 200 + 1 / 101 * (0 - 10 ^ 200))\<^sup>2"
    unfolding overflow_threshold_def by (simp add: power2_eq_square)
  have d: "distance_chk (10 ^ 200 + 1 / 101 * (0 - 10 ^ 200), 0 + 1 / 101 * (0 - 0))
             \<lparr>lat = 0, lng = 0, radius = 1\<rparr> = Inl OverflowError"
    using big by (simp add: distance_chk_def py_pow2_def)
  have l: "[Suc 0..<101] = Suc 0 # [Suc (Suc 0)..<101]"
    by (rule upt_conv_Cons) simp
  show ?thesis
    unfolding plan_chk_def threats_on_route_chk_def One_nat_def l
    using d by (simp add: py_div_def)
qed


subsection \<open>No overflow on inputs in range\<close>

lemma coord_bound_pos: "0 < coord_bound"
  by (simp add: coord_bound_def)

lemma coord_bound_square: "(4 * coord_bound)\<^sup>2 < overflow_threshold"
  unfolding overflow_threshold_def coord_bound_def by (simp add: power2_eq_square)

lemma py_pow2_ok:
  assumes "\<bar>x\<bar> \<le> 4 * coord_bound"
  shows "py_pow2 x = Inr (x\<^sup>2)"
proof -
  have "\<bar>x\<bar> \<le> \<bar>4 * coord_bound\<bar>"
    using assms coord_bound_pos by simp
  then have "x\<^sup>2 \<le> (4 * coord_bound)\<^sup>2"
    by (simp only: abs_le_square_iff)
  with coord_bound_square have "x\<^sup>2 < overflow_threshold" by linarith
  then show ?thesis by (simp add: py_pow2_def)
qed

lemma distance_chk_ok:
  assumes "\<bar>fst p\<bar> \<le> 3 * coord_bound" "\<bar>snd p\<bar> \<le> 3 * coord_bound" "threat_ok t"
  shows "distance_chk p t = Inr (distance p t)"
proof -
  from assms(3) have "\<bar>lat t\<bar> \<le> coord_bound" "\<bar>lng t\<bar> \<le> coord_bound"
    by (simp_all add: threat_ok_def coord_ok_def)
  with assms(1,2) have "\<bar>fst p - lat t\<bar> \<le> 4 * coord_bound" "\<bar>snd p - lng t\<bar> \<le> 4 * coord_bound"
    by linarith+
  then show ?thesis
    by (simp add: distance_chk_def py_pow2_ok math_sqrt_def distance_def not_less)
qed

lemma scan_threats_chk_ok:
  assumes "\<bar>fst p\<bar> \<le> 3 * coord_bound" "\<bar>snd p\<bar> \<le> 3 * coord_bound" "\<forall>t\<in>set ts. threat_ok t"
  shows "scan_threats_chk p ts acc = Inr (scan_threats p ts acc)"
  using assms(3)
  by (induction ts) (simp_all add: py_div_def distance_chk_ok[OF assms(1,2)] radius_in_degrees_def)

lemma check_point_bound:
  assumes "point_ok s" "point_ok e" "i \<le> 101"
  shows "\<bar>fst (check_point s e i)\<bar> \<le> 3 * coord_bound"
    and "\<bar>snd (check_point s e i)\<bar> \<le> 3 * coord_bound"
proof -
  have f: "0 \<le> fraction i" "fraction i \<le> 1"
    using assms(3) by (simp_all add: fraction_def)
  have b: "\<bar>x + fraction i * (y - x)\<bar> \<le> 3 * coord_bound"
    if "\<bar>x\<bar> \<le> coord_bound" "\<bar>y\<bar> \<le> coord_bound" for x y :: real
  proof -
    have "\<bar>fraction i * (y - x)\<bar> = fraction i * \<bar>y - x\<bar>"
      using f(1) by (simp add: abs_mult)
    also have "\<dots> \<le> 1 * \<bar>y - x\<bar>"
      using f(2) by (intro mult_right_mono) simp_all
    finally have "\<bar>fraction i * (y - x)\<bar> \<le> \<bar>y - x\<bar>" by simp
    with that show ?thesis by linarith
  qed
  from assms(1,2) show "\<bar>fst (check_point s e i)\<bar> \<le> 3 * coord_bound"
    by (simp add: check_point_def point_ok_def coord_ok_def b)
  from assms(1,2) show "\<bar>snd (check_point s e i)\<bar> \<le> 3 * coord_bound"
    by (simp add: check_point_def point_ok_def coord_ok_def b)
qed

lemma sample_loop_chk_ok:
  assumes "point_ok s" "point_ok e" "\<forall>t\<in>set ts. threat_ok t" "\<forall>i\<in>set ns. i \<le> 101"
  shows "sample_loop_chk s e ts ns acc =
           Inr (foldl (\<lambda>acc i. scan_threats (check_point s e i) ts acc) acc ns)"
  using assms(4)
proof (induction ns arbitrary: acc)
  case Nil
  show ?case by simp
next
  case (Cons n ns)
  then have n: "n \<le> 101" by simp
  have "scan_threats_chk (check_point s e n) ts acc = Inr (scan_threats (check_point s e n) ts acc)"
    by (rule scan_threats_chk_ok[OF check_point_bound[OF assms(1,2) n] assms(3)])
  then have "scan_threats_chk
       (fst s + real n / 101 * (fst e - fst s), snd s + real n / 101 * (snd e - snd s)) ts acc
       = Inr (scan_threats (check_point s e n) ts acc)"
    by (simp add: check_point_def fraction_def)
  with Cons show ?case by (simp add: py_div_def)
qed

lemma threats_on_route_chk_ok:
  assumes "point_ok s" "point_ok e" "\<forall>t\<in>set ts. threat_ok t"
  shows "threats_on_route_chk s e ts = Inr (threats_on_route s e ts)"
  unfolding threats_on_route_chk_def threats_on_route_def
  by (rule sample_loop_chk_ok[OF assms]) simp

lemma min_by_chk_ok:
  assumes "\<forall>x\<in>set xs. key_chk x = Inr (key x)"
  shows "min_by_chk key_chk b (key b) xs = Inr (min_by key b xs)"
  using assms by (induction xs arbitrary: b) simp_all

lemma half_le:
  fixes c z :: real
  shows "0 < c \<Longrightarrow> z \<le> 2 * c \<Longrightarrow> z / 2 \<le> 3 * c"
  by linarith

lemma mid_point_bound:
  assumes "point_ok s" "point_ok e"
  shows "\<bar>fst (mid_point s e)\<bar> \<le> 3 * coord_bound" "\<bar>snd (mid_point s e)\<bar> \<le> 3 * coord_bound"
proof -
  from assms have b: "\<bar>fst s\<bar> \<le> coord_bound" "\<bar>fst e\<bar> \<le> coord_bound"
    "\<bar>snd s\<bar> \<le> coord_bound" "\<bar>snd e\<bar> \<le> coord_bound"
    by (simp_all add: point_ok_def coord_ok_def)
  have h: "\<bar>(x + y) / 2\<bar> \<le> 3 * coord_bound"
    if "\<bar>x\<bar> \<le> coord_bound" "\<bar>y\<bar> \<le> coord_bound" for x y :: real
  proof -
    have e: "\<bar>(x + y) / 2\<bar> = \<bar>x + y\<bar> / 2" by simp
    from that abs_triangle_ineq[of x y] have "\<bar>x + y\<bar> \<le> 2 * coord_bound" by linarith
    then have "\<bar>x + y\<bar> / 2 \<le> 3 * coord_bound" by (rule half_le[OF coord_bound_pos])
    then show ?thesis by (simp only: e)
  qed
  from b have "\<bar>(fst s + fst e) / 2\<bar> \<le> 3 * coord_bound" by (intro h)
  then show "\<bar>fst (mid_point s e)\<bar> \<le> 3 * coord_bound"
    by (simp add: mid_point_def)
  from b have "\<bar>(snd s + snd e) / 2\<bar> \<le> 3 * coord_bound" by (intro h)
  then show "\<bar>snd (mid_point s e)\<bar> \<le> 3 * coord_bound"
    by (simp add: mid_point_def)
qed

lemma closest_threat_chk_ok:
  assumes "point_ok s" "point_ok e" "\<forall>t\<in>set (c # cs). threat_ok t"
  shows "closest_threat_chk s e c cs = Inr (closest_threat s e c cs)"
proof -
  have k: "\<forall>t\<in>set (c # cs). distance_chk (mid_point s e) t = Inr (distance (mid_point s e) t)"
    using assms(3) distance_chk_ok[OF mid_point_bound[OF assms(1,2)]] by blast
  then have "min_by_chk (distance_chk (mid_point s e)) c (distance (mid_point s e) c) cs
               = Inr (min_by (distance (mid_point s e)) c cs)"
    by (intro min_by_chk_ok) simp
  with k show ?thesis
    by (simp add: closest_threat_chk_def closest_threat_def py_div_def mid_point_def)
qed

lemma py_pow2_float_ok:
  assumes "\<bar>x\<bar> \<le> 4 * coord_bound"
  shows "py_pow2_float x = Inr (float_pow2 x)"
proof -
  have "\<bar>x\<bar> \<le> \<bar>4 * coord_bound\<bar>"
    using assms coord_bound_pos by simp
  then have "x\<^sup>2 \<le> (4 * coord_bound)\<^sup>2"
    by (simp only: abs_le_square_iff)
  with coord_bound_square have "x\<^sup>2 < overflow_threshold" by linarith
  then show ?thesis by (simp add: py_pow2_float_def)
qed

lemma perp_vector_chk_ok:
  assumes "point_ok s" "point_ok e"
  shows "perp_vector_chk s e = Inr (perp_vector s e)"
proof -
  from assms have "\<bar>fst s\<bar> \<le> coord_bound" "\<bar>fst e\<bar> \<le> coord_bound"
    "\<bar>snd s\<bar> \<le> coord_bound" "\<bar>snd e\<bar> \<le> coord_bound"
    by (simp_all add: point_ok_def coord_ok_def)
  then have b1: "\<bar>snd s - snd e\<bar> \<le> 4 * coord_bound" "\<bar>fst e - fst s\<bar> \<le> 4 * coord_bound"
    by linarith+
  have nn: "\<not> float_pow2 (snd s - snd e) + float_pow2 (fst e - fst s) < 0"
    using float_pow2_nonneg[of "snd s - snd e"] float_pow2_nonneg[of "fst e - fst s"]
    by linarith
  show ?thesis
    unfolding perp_vector_chk_def perp_vector_def Let_def
    using b1 nn by (simp add: py_pow2_float_ok math_sqrt_def py_div_def)
qed

lemma waypoint_bound:
  assumes "threat_ok t"
  shows "\<bar>fst (waypoint_primary s e t)\<bar> \<le> 3 * coord_bound"
    and "\<bar>snd (waypoint_primary s e t)\<bar> \<le> 3 * coord_bound"
proof -
  from assms have r: "0 \<le> radius t" "radius t \<le> coord_bound"
    and c: "\<bar>lat t\<bar> \<le> coord_bound" "\<bar>lng t\<bar> \<le> coord_bound"
    by (simp_all add: threat_ok_def coord_ok_def)
  from r have d: "0 \<le> detour_distance t" "2 * detour_distance t \<le> coord_bound"
    by (simp_all add: detour_distance_def)
  have m: "\<bar>u * detour_distance t\<bar> \<le> coord_bound" if "\<bar>u\<bar> \<le> 2" for u :: real
  proof -
    have "\<bar>u * detour_distance t\<bar> = \<bar>u\<bar> * detour_distance t"
      using d(1) by (simp add: abs_mult)
    also have "\<dots> \<le> 2 * detour_distance t"
      using that d(1) by (intro mult_right_mono) simp_all
    finally show ?thesis using d(2) by simp
  qed
  from m[OF perp_vector_le_2[THEN conjunct1, of s e]] c(1)
  show "\<bar>fst (waypoint_primary s e t)\<bar> \<le> 3 * coord_bound"
    unfolding waypoint_primary_def using coord_bound_pos by simp
  from m[OF perp_vector_le_2[THEN conjunct2, of s e]] c(2)
  show "\<bar>snd (waypoint_primary s e t)\<bar> \<le> 3 * coord_bound"
    unfolding waypoint_primary_def using coord_bound_pos by simp
qed

lemma waypoint_safe_chk_ok:
  assumes "\<bar>fst w\<bar> \<le> 3 * coord_bound" "\<bar>snd w\<bar> \<le> 3 * coord_bound" "\<forall>t\<in>set ts. threat_ok t"
  shows "waypoint_safe_chk w ts = Inr (waypoint_safe w ts)"
  using assms(3)
  by (induction ts) (simp_all add: py_div_def distance_chk_ok[OF assms(1,2)] radius_in_degrees_def)

lemma plan_chk_ok:
  assumes "point_ok s" "point_ok e" "\<forall>t\<in>set ts. threat_ok t"
  shows "plan_chk s e ts = Inr (plan s e ts)"
proof (cases "threats_on_route s e ts")
  case Nil
  then show ?thesis
    by (simp add: plan_chk_def plan_def threats_on_route_chk_ok[OF assms])
next
  case (Cons c cs)
  let ?t = "closest_threat s e c cs"
  have sub: "\<forall>t\<in>set (c # cs). threat_ok t"
    using assms(3) threats_on_route_hit[of _ s e ts] unfolding Cons by blast
  have t: "threat_ok ?t" using sub closest_threat_in[of s e c cs] by blast
  have w: "waypoint_safe_chk (waypoint_primary s e ?t) ts
             = Inr (waypoint_safe (waypoint_primary s e ?t) ts)"
    by (rule waypoint_safe_chk_ok[OF waypoint_bound[OF t] assms(3)])
  show ?thesis
    using w
    by (simp add: plan_chk_def plan_def Cons threats_on_route_chk_ok[OF assms]
          closest_threat_chk_ok[OF assms(1,2) sub] perp_vector_chk_ok[OF assms(1,2)]
          py_div_def Let_def detour_waypoint_def waypoint_primary_def waypoint_opposite_def
          detour_distance_def)
qed

lemma plan_length: "length (plan s e ts) = 2 \<or> length (plan s e ts) = 3"
  by (simp add: plan_def split: list.splits)

lemma distance_chk_cases:
  "distance_chk p t = Inr (distance p t) \<or> distance_chk p t = Inl OverflowError"
  by (simp add: distance_chk_def py_pow2_def math_sqrt_def distance_def
        not_sum_power2_lt_zero)

lemma scan_threats_chk_cases:
  "scan_threats_chk p ts acc = Inr (scan_threats p ts acc)
   \<or> scan_threats_chk p ts acc = Inl OverflowError"
proof (induction ts)
  case Nil
  show ?case by simp
next
  case (Cons t ts)
  from distance_chk_cases[of p t] show ?case
  proof
    assume "distance_chk p t = Inr (distance p t)"
    with Cons show ?thesis by (simp add: py_div_def radius_in_degrees_def)
  next
    assume "distance_chk p t = Inl OverflowError"
    then show ?thesis by (simp add: py_div_def)
  qed
qed

lemma sample_loop_chk_cases:
  "sample_loop_chk s e ts ns acc =
     Inr (foldl (\<lambda>acc i. scan_threats (check_point s e i) ts acc) acc ns)
   \<or> sample_loop_chk s e ts ns acc = Inl OverflowError"
proof (induction ns arbitrary: acc)
  case Nil
  show ?case by simp
next
  case (Cons n ns)
  have step: "sample_loop_chk s e ts (n # ns) acc =
      (case scan_threats_chk (check_point s e n) ts acc of Inl err \<Rightarrow> Inl err
       | Inr acc' \<Rightarrow> sample_loop_chk s e ts ns acc')"
    by (simp add: py_div_def check_point_def fraction_def)
  from scan_threats_chk_cases[of "check_point s e n" ts acc] show ?case
  proof
    assume "scan_threats_chk (check_point s e n) ts acc = Inr (scan_threats (check_point s e n) ts acc)"
    with Cons.IH[of "scan_threats (check_point s e n) ts acc"] show ?thesis
      unfolding step by simp
  next
    assume "scan_threats_chk (check_point s e n) ts acc = Inl OverflowError"
    then show ?thesis unfolding step by simp
  qed
qed

lemma min_by_chk_cases:
  assumes "\<And>x. key_chk x = Inr (key x) \<or> key_chk x = Inl OverflowError"
  shows "min_by_chk key_chk b (key b) xs = Inr (min_by key b xs)
         \<or> min_by_chk key_chk b (key b) xs = Inl OverflowError"
proof (induction xs arbitrary: b)
  case Nil
  show ?case by simp
next
  case (Cons x xs)
  from assms[of x] show ?case
  proof
    assume "key_chk x = Inr (key x)"
    with Cons.IH[of x] Cons.IH[of b] show ?thesis by simp
  next
    assume "key_chk x = Inl OverflowError"
    then show ?thesis by simp
  qed
qed

lemma closest_threat_chk_cases:
  "closest_threat_chk s e c cs = Inr (closest_threat s e c cs)
   \<or> closest_threat_chk s e c cs = Inl OverflowError"
proof -
  from distance_chk_cases[of "mid_point s e" c] show ?thesis
  proof
    assume "distance_chk (mid_point s e) c = Inr (distance (mid_point s e) c)"
    with min_by_chk_cases[of "distance_chk (mid_point s e)" "distance (mid_point s e)" c cs,
        OF distance_chk_cases]
    show ?thesis
      by (simp add: closest_threat_chk_def closest_threat_def py_div_def mid_point_def)
  next
    assume "distance_chk (mid_point s e) c = Inl OverflowError"
    then show ?thesis
      by (simp add: closest_threat_chk_def py_div_def mid_point_def)
  qed
qed

lemma perp_vector_chk_cases:
  "perp_vector_chk s e = Inr (perp_vector s e) \<or> perp_vector_chk s e = Inl OverflowError"
proof -
  have nn: "\<not> float_pow2 (snd s - snd e) + float_pow2 (fst e - fst s) < 0"
    using float_pow2_nonneg[of "snd s - snd e"] float_pow2_nonneg[of "fst e - fst s"]
    by linarith
  show ?thesis
    unfolding perp_vector_chk_def perp_vector_def Let_def
    using nn by (simp add: py_pow2_float_def math_sqrt_def py_div_def)
qed

lemma waypoint_safe_chk_cases:
  "waypoint_safe_chk w ts = Inr (waypoint_safe w ts)
   \<or> waypoint_safe_chk w ts = Inl OverflowError"
proof (induction ts)
  case Nil
  show ?case by simp
next
  case (Cons t ts)
  from distance_chk_cases[of w t] show ?case
  proof
    assume "distance_chk w t = Inr (distance w t)"
    with Cons show ?thesis by (simp add: py_div_def radius_in_degrees_def)
  next
    assume "distance_chk w t = Inl OverflowError"
    then show ?thesis by (simp add: py_div_def)
  qed
qed

lemma plan_chk_cases:
  "plan_chk s e ts = Inr (plan s e ts) \<or> plan_chk s e ts = Inl OverflowError"
proof -
  from sample_loop_chk_cases[of s e ts "[1..<101]" "[]"]
  have "threats_on_route_chk s e ts = Inr (threats_on_route s e ts)
        \<or> threats_on_route_chk s e ts = Inl OverflowError"
    by (simp add: threats_on_route_chk_def threats_on_route_def)
  then show ?thesis
  proof
    assume "threats_on_route_chk s e ts = Inl OverflowError"
    then show ?thesis by (simp add: plan_chk_def)
  next
    assume r: "threats_on_route_chk s e ts = Inr (threats_on_route s e ts)"
    show ?thesis
    proof (cases "threats_on_route s e ts")
      case Nil
      with r show ?thesis by (simp add: plan_chk_def plan_def)
    next
      case (Cons c cs)
      let ?t = "closest_threat s e c cs"
      from closest_threat_chk_cases[of s e c cs] show ?thesis
      proof
        assume "closest_threat_chk s e c cs = Inl OverflowError"
        with r Cons show ?thesis by (simp add: plan_chk_def)
      next
        assume c: "closest_threat_chk s e c cs = Inr ?t"
        from perp_vector_chk_cases[of s e] show ?thesis
        proof
          assume "perp_vector_chk s e = Inl OverflowError"
          with r Cons c show ?thesis by (simp add: plan_chk_def)
        next
          assume p: "perp_vector_chk s e = Inr (perp_vector s e)"
          from waypoint_safe_chk_cases[of "waypoint_primary s e ?t" ts] show ?thesis
          proof
            assume "waypoint_safe_chk (waypoint_primary s e ?t) ts = Inl OverflowError"
            with r Cons c p show ?thesis
              by (simp add: plan_chk_def py_div_def Let_def waypoint_primary_def
                    detour_distance_def)
          next
            assume "waypoint_safe_chk (waypoint_primary s e ?t) ts
                      = Inr (waypoint_safe (waypoint_primary s e ?t) ts)"
            with r Cons c p show ?thesis
              by (simp add: plan_chk_def plan_def py_div_def Let_def detour_waypoint_def
                    waypoint_primary_def waypoint_opposite_def detour_distance_def)
          qed
        qed
      qed
    qed
  qed
qed

text \<open>
  C8, as the code has it. The planner never raises \<open>ZeroDivisionError\<close> or
  \<open>ValueError\<close>: it either completes with the route, or raises the \<open>OverflowError\<close> of a
  square. On inputs whose coordinates are at most \<open>10 ^ 150\<close> in absolute value and
  whose radii lie between 0 and \<open>10 ^ 150\<close> it completes, and the route has 2 or 3
  points.
\<close>

theorem planning_raises_only_on_overflow:
  "(plan_chk start_point end_point all_threats = Inr (plan start_point end_point all_threats)
      \<or> plan_chk start_point end_point all_threats = Inl OverflowError)
   \<and> (point_ok start_point \<and> point_ok end_point \<and> (\<forall>t\<in>set all_threats. threat_ok t)
        \<longrightarrow> plan_chk start_point end_point all_threats
              = Inr (plan start_point end_point all_threats))
   \<and> (length (plan start_point end_point all_threats) = 2
        \<or> length (plan start_point end_point all_threats) = 3)"
  using plan_chk_cases[of start_point end_point all_threats]
    plan_chk_ok[of start_point end_point all_threats]
    plan_length[of start_point end_point all_threats]
  by blast

theorem planning_raises_only_on_overflow_witness:
  "plan_chk (0, 0) (0, 1) [\<lparr>lat = 0, lng = 1/2, radius = 5000\<rparr>]
     = Inr [(0, 0), (- (250 / 2783), 1/2), (0, 1)]"
proof -
  have b: "(0::real) \<le> coord_bound" "(1::real) \<le> coord_bound" "(1/2::real) \<le> coord_bound"
    "(5000::real) \<le> coord_bound"
    by (simp_all add: coord_bound_def)
  have h: "point_ok (0, 0) \<and> point_ok (0, 1)
     \<and> (\<forall>t\<in>set [\<lparr>lat = 0, lng = 1/2, radius = 5000\<rparr>]. threat_ok t)"
    using b by (simp add: point_ok_def threat_ok_def coord_ok_def)
  with planning_raises_only_on_overflow[of "(0, 0)" "(0, 1)" "[\<lparr>lat = 0, lng = 1/2, radius = 5000\<rparr>]"]
  show ?thesis by (simp add: scenario_plan)
qed

end
